theory Spec2Isabelle
  imports Main "HOL-Library.Word"
begin

unbundle bit_operations_syntax

section \<open>Network_SnifferX: the layered packet decoders\<close>

text \<open>
  A shallow embedding of \<^verbatim>\<open>Network_SnifferX.py\<close>. A Python \<^verbatim>\<open>bytes\<close> object is a list
  of 8-bit words; indexing it gives a Python integer, so every decoded field is an
  \<open>int\<close>. A raised exception is the left summand of the result; it records the class
  of the exception and the function whose frame raised it, as the traceback does
  (\<open>UnboundLocalError\<close>, which only \<^verbatim>\<open>main\<close> could raise, records the variable instead).
\<close>

type_synonym byte = "8 word"
type_synonym bytes = "byte list"

datatype func = Ethernet_frame | Ipv4_packet | Tcp_segment | Udp_segment | Icmp_packet

datatype py_error =
    StructError func | IndexError func | OverflowError func | UnboundLocalError string

text \<open>\<^verbatim>\<open>sys.byteorder\<close> of the host the program runs on; \<^verbatim>\<open>socket.htons\<close> depends on it.\<close>

datatype byteorder = Little | Big

subsection \<open>Library functions the decoders call\<close>

text \<open>The slices \<^verbatim>\<open>data[i:j]\<close> and \<^verbatim>\<open>data[i:]\<close>; a negative start counts from the end.\<close>

definition slice :: "nat \<Rightarrow> nat \<Rightarrow> 'a list \<Rightarrow> 'a list" where
  "slice i j xs = take (j - i) (drop i xs)"

definition slice_from :: "int \<Rightarrow> 'a list \<Rightarrow> 'a list" where
  "slice_from i xs =
     (if i < 0 then drop (nat (int (length xs) + i)) xs else drop (nat i) xs)"

text \<open>
  The integer fields of \<^verbatim>\<open>struct.unpack\<close> under the \<^verbatim>\<open>!\<close> prefix: network byte order,
  most significant byte first (\<^verbatim>\<open>B\<close> on one byte, \<^verbatim>\<open>H\<close> on two, \<^verbatim>\<open>L\<close> on four).
\<close>

definition be_uint :: "bytes \<Rightarrow> int" where
  "be_uint bs = foldl (\<lambda>acc b. acc * 256 + uint b) 0 bs"

text \<open>
  \<^verbatim>\<open>socket.htons\<close>: swaps the two bytes of a 16-bit value on a little-endian host, is
  the identity on a big-endian one, and raises \<^verbatim>\<open>OverflowError\<close> outside 16 bits.
\<close>

definition htons :: "byteorder \<Rightarrow> int \<Rightarrow> int option" where
  "htons bo x =
     (if x < 0 \<or> 65535 < x then None
      else case bo of
             Little \<Rightarrow> Some ((x mod 256) * 256 + x div 256)
           | Big \<Rightarrow> Some x)"

text \<open>\<^verbatim>\<open>'{:02x}'.format\<close> on a byte, \<^verbatim>\<open>str.upper\<close>, \<^verbatim>\<open>str\<close> on an integer, \<^verbatim>\<open>sep.join\<close>.\<close>

definition hex_digit :: "nat \<Rightarrow> char" where
  "hex_digit n = ''0123456789abcdef'' ! (n mod 16)"

definition format_02x :: "byte \<Rightarrow> string" where
  "format_02x b = [hex_digit (unat b div 16), hex_digit (unat b mod 16)]"

definition upper_char :: "char \<Rightarrow> char" where
  "upper_char c =
     (if (97::nat) \<le> of_char c \<and> of_char c \<le> (122::nat)
      then char_of (of_char c - (32::nat)) else c)"

definition upper :: "string \<Rightarrow> string" where
  "upper s = map upper_char s"

fun str_nat :: "nat \<Rightarrow> string" where
  "str_nat n =
     (if n < 10 then [''0123456789'' ! n]
      else str_nat (n div 10) @ [''0123456789'' ! (n mod 10)])"

definition str_int :: "int \<Rightarrow> string" where
  "str_int i = (if i < 0 then CHR ''-'' # str_nat (nat (- i)) else str_nat (nat i))"

fun join :: "string \<Rightarrow> string list \<Rightarrow> string" where
  "join sep [] = []"
| "join sep [s] = s"
| "join sep (s # t # ss) = s @ sep @ join sep (t # ss)"

subsection \<open>The decoders\<close>

definition get_mac_addr :: "bytes \<Rightarrow> string" where
  "get_mac_addr bytes_addr = upper (join '':'' (map format_02x bytes_addr))"

definition ipv4 :: "bytes \<Rightarrow> string" where
  "ipv4 addr = join ''.'' (map (\<lambda>b. str_int (uint b)) addr)"

text \<open>
  \<^verbatim>\<open>struct.unpack('! 6s 6s H', data[:14])\<close> raises \<^verbatim>\<open>struct.error\<close> unless the buffer
  holds exactly 14 bytes.
\<close>

definition ethernet_frame ::
  "byteorder \<Rightarrow> bytes \<Rightarrow> py_error + (string \<times> string \<times> int \<times> bytes)" where
  "ethernet_frame bo data =
     (let buf = take 14 data in
      if length buf \<noteq> 14 then Inl (StructError Ethernet_frame)
      else
        let dest_mac = slice 0 6 buf;
            src_mac = slice 6 12 buf;
            proto = be_uint (slice 12 14 buf)
        in case htons bo proto of
             None \<Rightarrow> Inl (OverflowError Ethernet_frame)
           | Some eth_proto \<Rightarrow>
               Inr (get_mac_addr dest_mac, get_mac_addr src_mac, eth_proto,
                    slice_from 14 data))"

text \<open>
  \<^verbatim>\<open>data[0]\<close> raises \<^verbatim>\<open>IndexError\<close> on an empty buffer; the format
  \<^verbatim>\<open>'! 8x B B 2x 4s 4s'\<close> needs exactly 20 bytes.
\<close>

definition ipv4_packet ::
  "bytes \<Rightarrow> py_error + (int \<times> int \<times> int \<times> int \<times> string \<times> string \<times> bytes)" where
  "ipv4_packet data =
     (if data = [] then Inl (IndexError Ipv4_packet)
      else
        let version_header_length = uint (data ! 0);
            version = drop_bit 4 version_header_length;
            header_length = (version_header_length AND 15) * 4;
            buf = take 20 data
        in if length buf \<noteq> 20 then Inl (StructError Ipv4_packet)
           else
             let ttl = be_uint (slice 8 9 buf);
                 proto = be_uint (slice 9 10 buf);
                 src = slice 12 16 buf;
                 target = slice 16 20 buf
             in Inr (version, header_length, ttl, proto, ipv4 src, ipv4 target,
                     slice_from header_length data))"

text \<open>
  The flags dictionary keeps its keys in insertion order; it is an association list.
\<close>

definition tcp_segment ::
  "bytes \<Rightarrow> py_error + (int \<times> int \<times> int \<times> int \<times> (string \<times> int) list \<times> bytes)" where
  "tcp_segment data =
     (let buf = take 14 data in
      if length buf \<noteq> 14 then Inl (StructError Tcp_segment)
      else
        let src_port = be_uint (slice 0 2 buf);
            dest_port = be_uint (slice 2 4 buf);
            sequence = be_uint (slice 4 8 buf);
            acknowledgment = be_uint (slice 8 12 buf);
            offset_reserved_flags = be_uint (slice 12 14 buf);
            offset = drop_bit 12 offset_reserved_flags * 4;
            flags =
              [(''URG'', drop_bit 5 (offset_reserved_flags AND 32)),
               (''ACK'', drop_bit 4 (offset_reserved_flags AND 16)),
               (''PSH'', drop_bit 3 (offset_reserved_flags AND 8)),
               (''RST'', drop_bit 2 (offset_reserved_flags AND 4)),
               (''SYN'', drop_bit 1 (offset_reserved_flags AND 2)),
               (''FIN'', offset_reserved_flags AND 1)]
        in Inr (src_port, dest_port, sequence, acknowledgment, flags,
                slice_from offset data))"

text \<open>
  The format \<^verbatim>\<open>'! H H 2x H'\<close> reads 16-bit fields at offsets 0, 2 and 6: the two pad
  bytes stand at offsets 4 and 5.
\<close>

definition udp_segment :: "bytes \<Rightarrow> py_error + (int \<times> int \<times> int \<times> bytes)" where
  "udp_segment data =
     (let buf = take 8 data in
      if length buf \<noteq> 8 then Inl (StructError Udp_segment)
      else
        let src_port = be_uint (slice 0 2 buf);
            dest_port = be_uint (slice 2 4 buf);
            size' = be_uint (slice 6 8 buf)
        in Inr (src_port, dest_port, size', slice_from 8 data))"

definition icmp_packet :: "bytes \<Rightarrow> py_error + (int \<times> int \<times> int \<times> bytes)" where
  "icmp_packet data =
     (let buf = take 4 data in
      if length buf \<noteq> 4 then Inl (StructError Icmp_packet)
      else
        let icmp_type = be_uint (slice 0 1 buf);
            code = be_uint (slice 1 2 buf);
            checksum = be_uint (slice 2 4 buf)
        in Inr (icmp_type, code, checksum, slice_from 4 data))"

subsection \<open>The capture loop\<close>

text \<open>
  One iteration of the loop of \<^verbatim>\<open>main\<close> on a received frame. Its effects are kept as a
  trace: \<open>Call f d\<close> when the decoder \<open>f\<close> is invoked on the buffer \<open>d\<close>, and \<open>Print p\<close>
  for each block of \<^verbatim>\<open>print\<close> calls, holding the values the block interpolates (the
  layout of the text, \<^verbatim>\<open>format_multi_line\<close> included, is not modelled). The second
  component is the exception that leaves the iteration, if any: \<^verbatim>\<open>main\<close> has no handler.
\<close>

datatype printed =
    EthernetFrame string string int
  | IPv4Packet int int int int string string
  | ICMPPacket int int int bytes
  | TCPSegment int int int int "(string \<times> int) list" bytes
  | UDPSegment int int int bytes
  | OtherProtocol int bytes

datatype event = Call func bytes | Print printed

definition main_body :: "byteorder \<Rightarrow> bytes \<Rightarrow> event list \<times> py_error option" where
  "main_body bo raw_data =
     (case ethernet_frame bo raw_data of
        Inl e \<Rightarrow> ([Call Ethernet_frame raw_data], Some e)
      | Inr (dest_mac, src_mac, eth_proto, data) \<Rightarrow>
          let t1 = [Call Ethernet_frame raw_data,
                    Print (EthernetFrame dest_mac src_mac eth_proto)]
          in if eth_proto = 8 then
               (case ipv4_packet data of
                  Inl e \<Rightarrow> (t1 @ [Call Ipv4_packet data], Some e)
                | Inr (version, header_length, ttl, proto, src, target, data') \<Rightarrow>
                    let t2 = t1 @ [Call Ipv4_packet data,
                                   Print (IPv4Packet version header_length ttl proto src target)]
                    in if proto = 1 then
                         (case icmp_packet data' of
                            Inl e \<Rightarrow> (t2 @ [Call Icmp_packet data'], Some e)
                          | Inr (icmp_type, code, checksum, data'') \<Rightarrow>
                              (t2 @ [Call Icmp_packet data',
                                     Print (ICMPPacket icmp_type code checksum data'')], None))
                       else if proto = 6 then
                         (case tcp_segment data' of
                            Inl e \<Rightarrow> (t2 @ [Call Tcp_segment data'], Some e)
                          | Inr (src_port, dest_port, sequence, acknowledgment, flags, data'') \<Rightarrow>
                              (t2 @ [Call Tcp_segment data',
                                     Print (TCPSegment src_port dest_port sequence
                                              acknowledgment flags data'')], None))
                       else if proto = 17 then
                         (case udp_segment data' of
                            Inl e \<Rightarrow> (t2 @ [Call Udp_segment data'], Some e)
                          | Inr (src_port, dest_port, size', data'') \<Rightarrow>
                              (t2 @ [Call Udp_segment data',
                                     Print (UDPSegment src_port dest_port size' data'')], None))
                       else (t2 @ [Print (OtherProtocol proto data')], None))
             else (t1, None))"







text \<open>The decoder invocations of a trace, in order, each with the buffer it was given.\<close>

fun calls :: "event list \<Rightarrow> (func \<times> bytes) list" where
  "calls [] = []"
| "calls (Call f d # es) = (f, d) # calls es"
| "calls (Print p # es) = calls es"

section \<open>Facts about the library functions\<close>

lemma flag_bit_int: "drop_bit n ((w::int) AND 2 ^ n) = of_bool (bit w n)"
  by (rule bit_eqI) (auto simp add: bit_simps)

lemma flag_bits:
  fixes w :: int
  shows "drop_bit 5 (w AND 32) = of_bool (bit w 5)"
    "drop_bit 4 (w AND 16) = of_bool (bit w 4)"
    "drop_bit 3 (w AND 8) = of_bool (bit w 3)"
    "drop_bit 2 (w AND 4) = of_bool (bit w 2)"
    "drop_bit 1 (w AND 2) = of_bool (bit w 1)"
    "w AND 1 = of_bool (bit w 0)"
  using flag_bit_int [of 5 w] flag_bit_int [of 4 w] flag_bit_int [of 3 w]
    flag_bit_int [of 2 w] flag_bit_int [of 1 w] flag_bit_int [of 0 w]
  by simp_all

lemma mask_test_int: "((w::int) AND 2 ^ n \<noteq> 0) = bit w n"
  by (simp add: and_exp_eq_0_iff_not_bit)

lemma bit_flip_int: "bit ((w::int) XOR 2 ^ i) j = (bit w j \<noteq> (j = i))"
  by (auto simp add: bit_simps)

lemma be_uint_single: "be_uint [a] = uint a"
  by (simp add: be_uint_def)

lemma be_uint_pair: "be_uint [a, b] = uint a * 256 + uint b"
  by (simp add: be_uint_def)

lemma be_uint_pair_range: "0 \<le> be_uint [a, b] \<and> be_uint [a, b] \<le> 65535"
proof -
  have "uint a < 256" "uint b < 256" "0 \<le> uint a" "0 \<le> uint b"
    using uint_lt2p [of a] uint_lt2p [of b] by simp_all
  then show ?thesis unfolding be_uint_pair by linarith
qed

lemma htons_little_pair: "htons Little (be_uint [a, b]) = Some (be_uint [b, a])"
proof -
  have "uint a < 256" "uint b < 256" "0 \<le> uint a" "0 \<le> uint b"
    using uint_lt2p [of a] uint_lt2p [of b] by simp_all
  then have "(uint a * 256 + uint b) mod 256 = uint b" "(uint a * 256 + uint b) div 256 = uint a"
    by simp_all
  moreover have "\<not> (be_uint [a, b] < 0 \<or> 65535 < be_uint [a, b])"
    using be_uint_pair_range [of a b] by linarith
  ultimately show ?thesis
    unfolding htons_def by (simp add: be_uint_pair)
qed

lemma htons_big_pair: "htons Big (be_uint [a, b]) = Some (be_uint [a, b])"
proof -
  have "\<not> (be_uint [a, b] < 0 \<or> 65535 < be_uint [a, b])"
    using be_uint_pair_range [of a b] by linarith
  then show ?thesis unfolding htons_def by simp
qed

lemma be_uint_pair_eq_8: "be_uint [b, a] = 8 \<longleftrightarrow> a = 8 \<and> b = 0"
proof
  assume h: "be_uint [b, a] = 8"
  have "uint a < 256" "uint b < 256" "0 \<le> uint a" "0 \<le> uint b"
    using uint_lt2p [of a] uint_lt2p [of b] by simp_all
  with h have "uint b = 0 \<and> uint a = 8"
    unfolding be_uint_pair by presburger
  then have "uint b = uint (0 :: byte)" "uint a = uint (8 :: byte)" by simp_all
  then show "a = 8 \<and> b = 0" by (simp only: word_uint_eq_iff [symmetric])
next
  assume "a = 8 \<and> b = 0"
  then show "be_uint [b, a] = 8" by (simp add: be_uint_pair)
qed

section \<open>What each decoder returns\<close>

lemma slice_from_nonneg: "0 \<le> i \<Longrightarrow> slice_from i xs = drop (nat i) xs"
  by (simp add: slice_from_def)

lemma nibble_range: "0 \<le> uint (b :: byte) AND 15 \<and> uint b AND 15 \<le> 15"
  by (simp add: AND_upper2)

lemma offset_range: "0 \<le> drop_bit 12 (be_uint [a, b]) \<and> drop_bit 12 (be_uint [a, b]) \<le> 15"
proof -
  have "0 \<le> be_uint [a, b]" "be_uint [a, b] \<le> 65535"
    using be_uint_pair_range [of a b] by simp_all
  then have "0 \<le> be_uint [a, b] div 4096 \<and> be_uint [a, b] div 4096 \<le> 65535 div 4096"
    by (simp only: pos_imp_zdiv_nonneg_iff zdiv_mono1)
  then show ?thesis by (simp add: drop_bit_eq_div)
qed

lemma drop_unfold: "i < length xs \<Longrightarrow> drop i xs = xs ! i # drop (Suc i) xs"
  by (simp add: Cons_nth_drop_Suc)

lemma slice_one:
  assumes "k = Suc j" "k \<le> n" "n \<le> length xs"
  shows "slice j k (take n xs) = [xs ! j]"
proof -
  have "slice j k (take n xs) = take 1 (drop j xs)"
    using assms by (simp add: slice_def drop_take min_def)
  also have "drop j xs = xs ! j # drop k xs"
    using assms drop_unfold [of j xs] by simp
  finally show ?thesis by simp
qed

lemma slice_two:
  assumes "k = Suc j" "l = Suc k" "l \<le> n" "n \<le> length xs"
  shows "slice j l (take n xs) = [xs ! j, xs ! k]"
proof -
  have "slice j l (take n xs) = take 2 (drop j xs)"
    using assms by (simp add: slice_def drop_take min_def)
  also have "drop j xs = xs ! j # xs ! k # drop l xs"
    using assms drop_unfold [of j xs] drop_unfold [of k xs] by simp
  finally show ?thesis by (simp add: numeral_2_eq_2)
qed

lemma slice_four:
  assumes "k = Suc j" "l = Suc k" "m = Suc l" "p = Suc m" "p \<le> n" "n \<le> length xs"
  shows "slice j p (take n xs) = [xs ! j, xs ! k, xs ! l, xs ! m]"
proof -
  have "slice j p (take n xs) = take 4 (drop j xs)"
    using assms by (simp add: slice_def drop_take min_def)
  also have "drop j xs = xs ! j # xs ! k # xs ! l # xs ! m # drop p xs"
    using assms drop_unfold [of j xs] drop_unfold [of k xs] drop_unfold [of l xs]
      drop_unfold [of m xs] by simp
  finally show ?thesis by (simp add: numeral_eq_Suc)
qed

lemma ethernet_frame_short:
  "length data < 14 \<Longrightarrow> ethernet_frame bo data = Inl (StructError Ethernet_frame)"
  by (simp add: ethernet_frame_def)

lemma ethernet_frame_ok:
  assumes "14 \<le> length data"
  shows "ethernet_frame bo data =
           Inr (get_mac_addr (take 6 data), get_mac_addr (take 6 (drop 6 data)),
                (case bo of Little \<Rightarrow> be_uint [data ! 13, data ! 12]
                          | Big \<Rightarrow> be_uint [data ! 12, data ! 13]),
                drop 14 data)"
proof -
  have p: "slice 12 14 (take 14 data) = [data ! 12, data ! 13]"
    using slice_two [of 13 12 14 14 data] assms by simp
  have d: "slice 0 6 (take 14 data) = take 6 data"
    using assms by (simp add: slice_def min_def)
  have s: "slice 6 12 (take 14 data) = take 6 (drop 6 data)"
    using assms by (simp add: slice_def take_drop min_def)
  show ?thesis
    unfolding ethernet_frame_def Let_def p d s
    using assms
    by (cases bo) (simp_all add: htons_little_pair htons_big_pair slice_from_nonneg)
qed

lemma ipv4_packet_short:
  "length data < 20 \<Longrightarrow>
   ipv4_packet data = Inl (if data = [] then IndexError Ipv4_packet else StructError Ipv4_packet)"
  by (simp add: ipv4_packet_def Let_def)

lemma ipv4_packet_ok:
  assumes "20 \<le> length data"
  shows "ipv4_packet data =
           Inr (drop_bit 4 (uint (data ! 0)), (uint (data ! 0) AND 15) * 4,
                uint (data ! 8), uint (data ! 9),
                ipv4 (take 4 (drop 12 data)), ipv4 (take 4 (drop 16 data)),
                drop (nat ((uint (data ! 0) AND 15) * 4)) data)"
proof -
  have t: "slice 8 9 (take 20 data) = [data ! 8]"
    using slice_one [of 9 8 20 data] assms by simp
  have p: "slice 9 10 (take 20 data) = [data ! 9]"
    using slice_one [of 10 9 20 data] assms by simp
  have s: "slice 12 16 (take 20 data) = take 4 (drop 12 data)"
    using assms by (simp add: slice_def take_drop min_def)
  have g: "slice 16 20 (take 20 data) = take 4 (drop 16 data)"
    using assms by (simp add: slice_def take_drop min_def)
  have n: "0 \<le> (uint (data ! 0) AND 15) * 4"
    using nibble_range [of "data ! 0"] by simp
  have ne: "data \<noteq> []" using assms by auto
  show ?thesis
    unfolding ipv4_packet_def Let_def t p s g be_uint_single slice_from_nonneg [OF n]
    using assms ne by simp
qed

lemma tcp_segment_short:
  "length data < 14 \<Longrightarrow> tcp_segment data = Inl (StructError Tcp_segment)"
  by (simp add: tcp_segment_def)

lemma tcp_segment_ok:
  assumes "14 \<le> length data"
  shows "tcp_segment data =
           Inr (be_uint [data ! 0, data ! 1], be_uint [data ! 2, data ! 3],
                be_uint [data ! 4, data ! 5, data ! 6, data ! 7],
                be_uint [data ! 8, data ! 9, data ! 10, data ! 11],
                [(''URG'', drop_bit 5 (be_uint [data ! 12, data ! 13] AND 32)),
                 (''ACK'', drop_bit 4 (be_uint [data ! 12, data ! 13] AND 16)),
                 (''PSH'', drop_bit 3 (be_uint [data ! 12, data ! 13] AND 8)),
                 (''RST'', drop_bit 2 (be_uint [data ! 12, data ! 13] AND 4)),
                 (''SYN'', drop_bit 1 (be_uint [data ! 12, data ! 13] AND 2)),
                 (''FIN'', be_uint [data ! 12, data ! 13] AND 1)],
                drop (nat (drop_bit 12 (be_uint [data ! 12, data ! 13]) * 4)) data)"
proof -
  have a: "slice 0 2 (take 14 data) = [data ! 0, data ! 1]"
    using slice_two [of 1 0 2 14 data] assms by simp
  have b: "slice 2 4 (take 14 data) = [data ! 2, data ! 3]"
    using slice_two [of 3 2 4 14 data] assms by simp
  have c: "slice 4 8 (take 14 data) = [data ! 4, data ! 5, data ! 6, data ! 7]"
    using slice_four [of 5 4 6 7 8 14 data] assms by simp
  have d: "slice 8 12 (take 14 data) = [data ! 8, data ! 9, data ! 10, data ! 11]"
    using slice_four [of 9 8 10 11 12 14 data] assms by simp
  have e: "slice 12 14 (take 14 data) = [data ! 12, data ! 13]"
    using slice_two [of 13 12 14 14 data] assms by simp
  have n: "0 \<le> drop_bit 12 (be_uint [data ! 12, data ! 13]) * 4"
    using offset_range [of "data ! 12" "data ! 13"] by simp
  have l: "length (take 14 data) = 14"
    using assms by simp
  show ?thesis
    unfolding tcp_segment_def Let_def a b c d e slice_from_nonneg [OF n] l
    by (simp only: refl if_False not_True_eq_False)
qed

lemma udp_segment_short:
  "length data < 8 \<Longrightarrow> udp_segment data = Inl (StructError Udp_segment)"
  by (simp add: udp_segment_def)

lemma udp_segment_ok:
  assumes "8 \<le> length data"
  shows "udp_segment data =
           Inr (be_uint [data ! 0, data ! 1], be_uint [data ! 2, data ! 3],
                be_uint [data ! 6, data ! 7], drop 8 data)"
proof -
  have a: "slice 0 2 (take 8 data) = [data ! 0, data ! 1]"
    using slice_two [of 1 0 2 8 data] assms by simp
  have b: "slice 2 4 (take 8 data) = [data ! 2, data ! 3]"
    using slice_two [of 3 2 4 8 data] assms by simp
  have c: "slice 6 8 (take 8 data) = [data ! 6, data ! 7]"
    using slice_two [of 7 6 8 8 data] assms by simp
  show ?thesis
    unfolding udp_segment_def Let_def a b c
    using assms by (simp add: slice_from_nonneg)
qed

lemma icmp_packet_short:
  "length data < 4 \<Longrightarrow> icmp_packet data = Inl (StructError Icmp_packet)"
  by (simp add: icmp_packet_def)

lemma icmp_packet_ok:
  assumes "4 \<le> length data"
  shows "icmp_packet data =
           Inr (uint (data ! 0), uint (data ! 1), be_uint [data ! 2, data ! 3], drop 4 data)"
proof -
  have a: "slice 0 1 (take 4 data) = [data ! 0]"
    using slice_one [of 1 0 4 data] assms by simp
  have b: "slice 1 2 (take 4 data) = [data ! 1]"
    using slice_one [of 2 1 4 data] assms by simp
  have c: "slice 2 4 (take 4 data) = [data ! 2, data ! 3]"
    using slice_two [of 3 2 4 4 data] assms by simp
  show ?thesis
    unfolding icmp_packet_def Let_def a b c be_uint_single
    using assms by (simp add: slice_from_nonneg)
qed

section \<open>The loop body, case by case\<close>

lemma main_body_eth_error:
  "ethernet_frame bo raw = Inl e \<Longrightarrow> main_body bo raw = ([Call Ethernet_frame raw], Some e)"
  by (simp add: main_body_def)

lemma main_body_other_ether:
  "ethernet_frame bo raw = Inr (dm, sm, p,
      data) \<Longrightarrow> p \<noteq> 8 \<Longrightarrow>
   main_body bo raw = ([Call Ethernet_frame raw, Print (EthernetFrame dm sm p)], None)"
  by (simp add: main_body_def)

lemma main_body_ipv4_error:
  "ethernet_frame bo raw = Inr (dm, sm, 8,
      data) \<Longrightarrow> ipv4_packet data = Inl e \<Longrightarrow>
   main_body bo raw =
     ([Call Ethernet_frame raw, Print (EthernetFrame dm sm 8), Call Ipv4_packet data], Some e)"
  by (simp add: main_body_def)

lemma main_body_transport:
  assumes "ethernet_frame bo raw = Inr (dm, sm, 8, data)"
    and "ipv4_packet data = Inr (v, hl, ttl, proto, s, t, rest)"
  shows "main_body bo raw =
    (let pre = [Call Ethernet_frame raw, Print (EthernetFrame dm sm 8),
                Call Ipv4_packet data, Print (IPv4Packet v hl ttl proto s t)]
     in if proto = 1 then
          (case icmp_packet rest of
             Inl e \<Rightarrow> (pre @ [Call Icmp_packet rest], Some e)
           | Inr (ty, co, ck, d) \<Rightarrow>
               (pre @ [Call Icmp_packet rest, Print (ICMPPacket ty co ck d)], None))
        else if proto = 6 then
          (case tcp_segment rest of
             Inl e \<Rightarrow> (pre @ [Call Tcp_segment rest], Some e)
           | Inr (sp, dp, sq, ak, fl, d) \<Rightarrow>
               (pre @ [Call Tcp_segment rest, Print (TCPSegment sp dp sq ak fl d)], None))
        else if proto = 17 then
          (case udp_segment rest of
             Inl e \<Rightarrow> (pre @ [Call Udp_segment rest], Some e)
           | Inr (sp, dp, sz, d) \<Rightarrow>
               (pre @ [Call Udp_segment rest, Print (UDPSegment sp dp sz d)], None))
        else (pre @ [Print (OtherProtocol proto rest)], None))"
  using assms by (simp add: main_body_def Let_def split: sum.splits)

lemma ethernet_frame_little:
  assumes "14 \<le> length raw"
  shows "\<exists>dm sm p. ethernet_frame Little raw = Inr (dm, sm, p, drop 14 raw)
           \<and> (p = 8) = (raw ! 12 = 8 \<and> raw ! 13 = 0)"
  unfolding ethernet_frame_ok [OF assms] by (simp add: be_uint_pair_eq_8)

lemma main_body_big_endian_host:
  assumes "14 \<le> length raw" and "raw ! 12 = 8" and "raw ! 13 = 0"
  shows "calls (fst (main_body Big raw)) = [(Ethernet_frame, raw)]"
proof -
  have "be_uint [raw ! 12, raw ! 13] \<noteq> 8"
    using assms by (simp add: be_uint_pair)
  then show ?thesis
    using main_body_other_ether [OF ethernet_frame_ok [OF assms(1), of Big, simplified]]
    by simp
qed




lemma call_too_short_aborts:
  assumes "(f, d) \<in> set (calls (fst (main_body bo raw)))"
    and "length d + 1 =
           (case f of Ethernet_frame \<Rightarrow> 14 | Ipv4_packet \<Rightarrow> 20 | Icmp_packet \<Rightarrow> 4
                    | Tcp_segment \<Rightarrow> 14 | Udp_segment \<Rightarrow> 8)"
  shows "snd (main_body bo raw) = Some (StructError f)
         \<and> last (fst (main_body bo raw)) = Call f d"
proof (cases "ethernet_frame bo raw")
  case (Inl e)
  then have "\<not> 14 \<le> length raw"
    using ethernet_frame_ok [of raw bo] by auto
  then have "length raw < 14" by linarith
  then show ?thesis
    using assms Inl main_body_eth_error [OF Inl] ethernet_frame_short [of raw bo]
    by (auto split: func.splits)
next
  case (Inr x)
  obtain dm sm p data where x: "x = (dm, sm, p, data)"
    by (cases x)
  have e: "ethernet_frame bo raw = Inr (dm, sm, p, data)"
    using Inr x by simp
  have l: "14 \<le> length raw"
    using ethernet_frame_short [of raw bo] e by (cases "length raw < 14") simp_all
  show ?thesis
  proof (cases "p = 8")
    case False
    then show ?thesis
      using assms l main_body_other_ether [OF e False] by (auto split: func.splits)
  next
    case True
    note e8 = e [unfolded True]
    show ?thesis
    proof (cases "ipv4_packet data")
      case (Inl err)
      have "\<not> 20 \<le> length data"
        using ipv4_packet_ok [of data] Inl by auto
      then have s: "length data < 20" by linarith
      show ?thesis
        using assms l s main_body_ipv4_error [OF e8 Inl] Inl ipv4_packet_short [OF s]
        by (auto split: func.splits if_splits)
    next
      case (Inr y)
      obtain v hl ttl proto s t rest where y: "y = (v, hl, ttl, proto, s, t, rest)"
        by (cases y)
      have i: "ipv4_packet data = Inr (v, hl, ttl, proto, s, t, rest)"
        using Inr y by simp
      have l2: "20 \<le> length data"
        using ipv4_packet_short [of data] i by (cases "length data < 20") simp_all
      have ic: "length rest < 4 \<Longrightarrow> icmp_packet rest = Inl (StructError Icmp_packet)"
        and ic': "4 \<le> length rest \<Longrightarrow> \<exists>r. icmp_packet rest = Inr r"
        and tc: "length rest < 14 \<Longrightarrow> tcp_segment rest = Inl (StructError Tcp_segment)"
        and tc': "14 \<le> length rest \<Longrightarrow> \<exists>r. tcp_segment rest = Inr r"
        and uc: "length rest < 8 \<Longrightarrow> udp_segment rest = Inl (StructError Udp_segment)"
        and uc': "8 \<le> length rest \<Longrightarrow> \<exists>r. udp_segment rest = Inr r"
        using icmp_packet_short icmp_packet_ok tcp_segment_short tcp_segment_ok
          udp_segment_short udp_segment_ok by simp_all
      show ?thesis
        using assms l l2 ic tc uc
        unfolding main_body_transport [OF e8 i] Let_def
        by (auto split: func.splits if_splits sum.splits)
    qed
  qed
qed

text \<open>
  The test \<^verbatim>\<open>eth_proto == 8\<close> recognises the ether_type bytes \<open>08 00\<close> on a little-endian
  host,
      where \<^verbatim>\<open>socket.htons\<close> swaps them (\<open>ethernet_frame_little\<close>); on a big-endian host
  the same frame stops after the Ethernet layer (\<open>main_body_big_endian_host\<close>). The
  claims about the whole chain are stated for the little-endian host.
\<close>

section \<open>The claims\<close>

text \<open>
  C1. The claim: on at least 8 bytes \<^verbatim>\<open>udp_segment\<close> returns the ports from offsets 0-1 and
  2-3 and, as length, the declared-length field at offsets 4-5, skipping the checksum at
  offsets 6-7. The code's format string puts the pad bytes before the last field, so it
  skips offsets 4-5 and returns the checksum field as the length: on a datagram that
  declares length 12 and carries checksum \<open>0xABCD\<close> the length returned is 43981.
\<close>

theorem udp_segment_length_is_not_declared_length:
  "udp_segment [0, 53, 0, 53, 0, 12, 171, 205, 1, 2, 3, 4] = Inr (53, 53, 43981, [1, 2, 3, 4])
   \<and> be_uint [0, 12] = 12 \<and> be_uint [171, 205] = 43981"
  by (simp add: udp_segment_def slice_def slice_from_def be_uint_def)

text \<open>
  C6. On an input of at least 14 bytes \<^verbatim>\<open>ethernet_frame\<close> succeeds, its header fields are
  those of the first 14 bytes alone, and the residual it returns is the suffix from offset
  14, whose length is the input length minus 14.
\<close>

theorem ethernet_frame_consumes_14:
  assumes "14 \<le> length data"
  shows "\<exists>dest_mac src_mac eth_proto.
           ethernet_frame bo data = Inr (dest_mac, src_mac, eth_proto, drop 14 data)
           \<and> ethernet_frame bo (take 14 data) = Inr (dest_mac, src_mac, eth_proto, [])
           \<and> length (drop 14 data) = length data - 14"
proof -
  have l: "14 \<le> length (take 14 data)"
    using assms by simp
  have n: "take 14 data ! 12 = data ! 12" "take 14 data ! 13 = data ! 13"
    by simp_all
  have t: "take 6 (take 14 data) = take 6 data"
    "take 6 (drop 6 (take 14 data)) = take 6 (drop 6 data)"
    by (simp_all add: drop_take)
  show ?thesis
    unfolding ethernet_frame_ok [OF assms] ethernet_frame_ok [OF l] n t
    using assms by simp
qed

theorem ethernet_frame_consumes_14_witness:
  "\<exists>dest_mac src_mac eth_proto.
     ethernet_frame Little [1, 2, 3, 4, 5, 6, 10, 11, 12, 13, 14, 255, 8, 0, 69, 7] =
       Inr (dest_mac, src_mac, eth_proto, [69, 7])
     \<and> ethernet_frame Little [1, 2, 3, 4, 5, 6, 10, 11, 12, 13, 14, 255, 8, 0] =
       Inr (dest_mac, src_mac, eth_proto, [])
     \<and> length [69 :: byte, 7] = 2"
  using ethernet_frame_consumes_14
    [of "[1, 2, 3, 4, 5, 6, 10, 11, 12, 13, 14, 255, 8, 0, 69, 7]" Little]
  by simp

text \<open>
  C10. On an input of at least 20 bytes whose first byte has a low nibble below 5,
  \<^verbatim>\<open>ipv4_packet\<close> still succeeds; the header length it returns is four times the nibble,
  below 20; the payload is the suffix from that offset, so it keeps more than the bytes
  after the 20 fixed header bytes; with nibble 0 the payload is the whole input.
\<close>

theorem ipv4_packet_short_header_length:
  assumes "20 \<le> length data" and "uint (data ! 0) AND 15 < 5"
  shows "\<exists>version header_length ttl proto src target payload.
           ipv4_packet data = Inr (version, header_length, ttl, proto, src, target, payload)
           \<and> header_length = 4 * (uint (data ! 0) AND 15)
           \<and> header_length < 20
           \<and> payload = drop (nat header_length) data
           \<and> length data - 20 < length payload
           \<and> (uint (data ! 0) AND 15 = 0 \<longrightarrow> payload = data)"
proof -
  have "0 \<le> uint (data ! 0) AND 15"
    using nibble_range [of "data ! 0"] by simp
  then have "nat ((uint (data ! 0) AND 15) * 4) < 20"
    using assms(2) by linarith
  then show ?thesis
    unfolding ipv4_packet_ok [OF assms(1)]
    using assms by (auto simp add: mult.commute)
qed

theorem ipv4_packet_short_header_length_witness:
  "\<exists>version header_length ttl proto src target payload.
     ipv4_packet [64, 0, 0, 0, 0, 0, 0, 0, 64, 17, 0, 0, 192, 168, 0, 1, 10, 0, 0, 255] =
       Inr (version, header_length, ttl, proto, src, target, payload)
     \<and> header_length = 0
     \<and> payload = [64, 0, 0, 0, 0, 0, 0, 0, 64, 17, 0, 0, 192, 168, 0, 1, 10, 0, 0, 255]"
  using ipv4_packet_short_header_length
    [of "[64, 0, 0, 0, 0, 0, 0, 0, 64, 17, 0, 0, 192, 168, 0, 1, 10, 0, 0, 255]"]
  by simp

text \<open>
  C2. The claim: for every input of at least 20 bytes the header length returned by
  \<^verbatim>\<open>ipv4_packet\<close> is four times the low nibble of the first byte and is at least 20.
  The second half fails: a 20-byte packet whose first byte is \<open>0x43\<close> is decoded with
  header length 12.
\<close>

theorem ipv4_packet_header_length_below_20:
  "length [67 :: byte, 0, 0, 0, 0, 0, 0, 0, 64, 6, 0, 0, 10, 0, 0, 1, 10, 0, 0, 2] = 20
   \<and> ipv4_packet [67, 0, 0, 0, 0, 0, 0, 0, 64, 6, 0, 0, 10, 0, 0, 1, 10, 0, 0, 2] =
       Inr (4, 12, 64, 6, ''10.0.0.1'', ''10.0.0.2'', [10, 0, 0, 1, 10, 0, 0, 2])
   \<and> \<not> (20 \<le> (12 :: int))"
  by (simp add: ipv4_packet_def slice_def slice_from_def be_uint_def ipv4_def str_int_def)

text \<open>
  C2, as the code has it: for every input of at least 20 bytes \<^verbatim>\<open>ipv4_packet\<close> succeeds
  and the header length it returns is four times the low nibble of the first byte, between
  0 and 60; it is at least 20 exactly when the nibble is at least 5.
\<close>

theorem ipv4_packet_header_length:
  assumes "20 \<le> length data"
  shows "\<exists>version header_length ttl proto src target payload.
           ipv4_packet data = Inr (version, header_length, ttl, proto, src, target, payload)
           \<and> header_length = 4 * (uint (data ! 0) AND 15)
           \<and> 0 \<le> header_length \<and> header_length \<le> 60
           \<and> (20 \<le> header_length) = (5 \<le> uint (data ! 0) AND 15)"
proof -
  have "0 \<le> uint (data ! 0) AND 15" "uint (data ! 0) AND 15 \<le> 15"
    using nibble_range [of "data ! 0"] by simp_all
  then show ?thesis
    unfolding ipv4_packet_ok [OF assms] by (simp add: mult.commute)
qed

theorem ipv4_packet_header_length_witness:
  "\<exists>version header_length ttl proto src target payload.
     ipv4_packet [70, 0, 0, 0, 0, 0, 0, 0, 64, 6, 0, 0, 10, 0, 0, 1, 10, 0, 0, 2, 1, 1, 1, 1, 9] =
       Inr (version, header_length, ttl, proto, src, target, payload)
     \<and> header_length = 24"
  using ipv4_packet_header_length
    [of "[70, 0, 0, 0, 0, 0, 0, 0, 64, 6, 0, 0, 10, 0, 0, 1, 10, 0, 0, 2, 1, 1, 1, 1, 9]"]
  by simp

text \<open>
  C3. The claim: \<^verbatim>\<open>tcp_segment\<close> fails when fewer than 14 bytes remain, and also when
  the data offset (four times the top 4 bits of the offset/flags word) exceeds the
  available length. The second half fails: a 14-byte segment whose data offset is 60 is
  decoded, with an empty payload.
\<close>

theorem tcp_segment_offset_beyond_input:
  "length [0 :: byte, 80, 1, 187, 0, 0, 0, 1, 0, 0, 0, 2, 240, 2] = 14
   \<and> 4 * drop_bit 12 (be_uint [240, 2]) = 60
   \<and> tcp_segment [0, 80, 1, 187, 0, 0, 0, 1, 0, 0, 0, 2, 240, 2] =
       Inr (80, 443, 1, 2,
            [(''URG'', 0), (''ACK'', 0), (''PSH'', 0), (''RST'', 0), (''SYN'', 1), (''FIN'', 0)],
            [])"
  by (simp add: tcp_segment_def slice_def slice_from_def be_uint_def drop_bit_eq_div)

text \<open>
  C3, as the code has it: \<^verbatim>\<open>tcp_segment\<close> raises \<^verbatim>\<open>struct.error\<close> when fewer than 14
  bytes remain; on 14 bytes or more it succeeds, the payload is the suffix from the data
  offset, and when the data offset exceeds the available length the payload is empty.
\<close>

theorem tcp_segment_truncation:
  "(length data < 14 \<longrightarrow> tcp_segment data = Inl (StructError Tcp_segment))
   \<and> (14 \<le> length data \<longrightarrow>
        (\<exists>src_port dest_port sequence acknowledgment flags payload.
           tcp_segment data =
             Inr (src_port, dest_port, sequence, acknowledgment, flags, payload)
           \<and> payload = drop (nat (4 * drop_bit 12 (be_uint [data ! 12, data ! 13]))) data
           \<and> (int (length data) < 4 * drop_bit 12 (be_uint [data ! 12, data ! 13])
                \<longrightarrow> payload = [])))"
proof (intro conjI impI)
  assume "length data < 14"
  then show "tcp_segment data = Inl (StructError Tcp_segment)"
    by (rule tcp_segment_short)
next
  assume h: "14 \<le> length data"
  show "\<exists>src_port dest_port sequence acknowledgment flags payload.
          tcp_segment data =
            Inr (src_port, dest_port, sequence, acknowledgment, flags, payload)
          \<and> payload = drop (nat (4 * drop_bit 12 (be_uint [data ! 12, data ! 13]))) data
          \<and> (int (length data) < 4 * drop_bit 12 (be_uint [data ! 12, data ! 13])
               \<longrightarrow> payload = [])"
    unfolding tcp_segment_ok [OF h] by (simp add: mult.commute)
qed

theorem tcp_segment_truncation_witness:
  "tcp_segment [0, 80, 1, 187, 0, 0, 0, 1, 0, 0, 0, 2, 240] = Inl (StructError Tcp_segment)
   \<and> (\<exists>src_port dest_port sequence acknowledgment flags.
         tcp_segment [0, 80, 1, 187, 0, 0, 0, 1, 0, 0, 0, 2, 240, 16, 7] =
           Inr (src_port, dest_port, sequence, acknowledgment, flags, []))"
  using tcp_segment_truncation [of "[0, 80, 1, 187, 0, 0, 0, 1, 0, 0, 0, 2, 240]"]
    tcp_segment_truncation [of "[0, 80, 1, 187, 0, 0, 0, 1, 0, 0, 0, 2, 240, 16, 7]"]
  by (simp add: be_uint_def drop_bit_eq_div)

lemma of_bool_int_eq: "((of_bool p :: int) = of_bool q) = (p = q)"
  by (cases p; cases q) simp_all

lemma mask_tests:
  fixes w :: int
  shows "(w AND 32 \<noteq> 0) = bit w 5" "(w AND 16 \<noteq> 0) = bit w 4" "(w AND 8 \<noteq> 0) = bit w 3"
    "(w AND 4 \<noteq> 0) = bit w 2" "(w AND 2 \<noteq> 0) = bit w 1" "(w AND 1 \<noteq> 0) = bit w 0"
  using mask_test_int [of w 5] mask_test_int [of w 4] mask_test_int [of w 3]
    mask_test_int [of w 2] mask_test_int [of w 1] mask_test_int [of w 0]
  by simp_all

lemma flags_changed:
  fixes w :: int
  shows "(map_of
            [(''URG'', of_bool (bit (w XOR 2 ^ i) 5) :: int), (''ACK'', of_bool (bit (w XOR 2 ^ i) 4)),
             (''PSH'', of_bool (bit (w XOR 2 ^ i) 3)), (''RST'', of_bool (bit (w XOR 2 ^ i) 2)),
             (''SYN'', of_bool (bit (w XOR 2 ^ i) 1)), (''FIN'', of_bool (bit (w XOR 2 ^ i) 0))] k
          \<noteq> map_of
            [(''URG'', of_bool (bit w 5)), (''ACK'', of_bool (bit w 4)),
             (''PSH'', of_bool (bit w 3)), (''RST'', of_bool (bit w 2)),
             (''SYN'', of_bool (bit w 1)), (''FIN'', of_bool (bit w 0))] k)
         = (i < 6 \<and> k = [''FIN'', ''SYN'', ''RST'', ''PSH'', ''ACK'', ''URG''] ! i)"
proof -
  consider "i = 0" | "i = 1" | "i = 2" | "i = 3" | "i = 4" | "i = 5" | "6 \<le> i"
    by linarith
  then show ?thesis
  proof cases
    case 1 then show ?thesis unfolding bit_flip_int by (simp add: of_bool_int_eq)
  next
    case 2 then show ?thesis unfolding bit_flip_int by (simp add: of_bool_int_eq)
  next
    case 3 then show ?thesis unfolding bit_flip_int by (simp add: of_bool_int_eq)
  next
    case 4 then show ?thesis unfolding bit_flip_int by (simp add: of_bool_int_eq)
  next
    case 5 then show ?thesis unfolding bit_flip_int by (simp add: of_bool_int_eq)
  next
    case 6 then show ?thesis unfolding bit_flip_int by (simp add: of_bool_int_eq)
  next
    case 7 then show ?thesis unfolding bit_flip_int by (simp add: of_bool_int_eq)
  qed
qed

text \<open>
  C4. The claim: each of the six flags returned by \<^verbatim>\<open>tcp_segment\<close> is the single-bit mask
  test of its bit of the offset/flags word (URG 5, ACK 4, PSH 3, RST 2, SYN 1, FIN 0), and
  flipping any one bit of the word changes exactly one flag. The last part fails for the
  ten bits the flags do not read: the words \<open>0x5002\<close> and \<open>0x5042\<close> differ in bit 6 and
  give the same six flags.
\<close>

theorem tcp_flags_reserved_bit_flip:
  "be_uint [80, 66] = be_uint [80, 2] XOR 2 ^ 6
   \<and> tcp_segment [0, 80, 1, 187, 0, 0, 0, 1, 0, 0, 0, 2, 80, 2] =
       Inr (80, 443, 1, 2,
            [(''URG'', 0), (''ACK'', 0), (''PSH'', 0), (''RST'', 0), (''SYN'', 1), (''FIN'', 0)],
            [])
   \<and> tcp_segment [0, 80, 1, 187, 0, 0, 0, 1, 0, 0, 0, 2, 80, 66] =
       Inr (80, 443, 1, 2,
            [(''URG'', 0), (''ACK'', 0), (''PSH'', 0), (''RST'', 0), (''SYN'', 1), (''FIN'', 0)],
            [])"
  by (simp add: tcp_segment_def slice_def slice_from_def be_uint_def drop_bit_eq_div)

text \<open>
  C4, as the code has it: each flag is the mask test of its bit; flipping one of the
  bits 0 to 5 of the word changes the flag of that bit and no other, and flipping one of
  the bits 6 to 15 changes no flag.
\<close>

theorem tcp_flags_bit_tests:
  assumes "14 \<le> length data" and "14 \<le> length data'"
    and "w = be_uint [data ! 12, data ! 13]"
    and "be_uint [data' ! 12, data' ! 13] = w XOR 2 ^ i"
  shows "\<exists>src_port dest_port sequence acknowledgment flags payload
            src_port' dest_port' sequence' acknowledgment' flags' payload'.
           tcp_segment data =
             Inr (src_port, dest_port, sequence, acknowledgment, flags, payload)
           \<and> tcp_segment data' =
             Inr (src_port', dest_port', sequence', acknowledgment', flags', payload')
           \<and> flags =
               [(''URG'', if w AND 32 \<noteq> 0 then 1 else 0),
                (''ACK'', if w AND 16 \<noteq> 0 then 1 else 0),
                (''PSH'', if w AND 8 \<noteq> 0 then 1 else 0),
                (''RST'', if w AND 4 \<noteq> 0 then 1 else 0),
                (''SYN'', if w AND 2 \<noteq> 0 then 1 else 0),
                (''FIN'', if w AND 1 \<noteq> 0 then 1 else 0)]
           \<and> (\<forall>k. (map_of flags' k \<noteq> map_of flags k) =
                    (i < 6 \<and> k = [''FIN'', ''SYN'', ''RST'', ''PSH'', ''ACK'', ''URG''] ! i))"
proof -
  have m: "(if p then 1 else 0) = (of_bool p :: int)" for p
    by simp
  show ?thesis
    unfolding tcp_segment_ok [OF assms(1)] tcp_segment_ok [OF assms(2)]
      assms(4) assms(3) [symmetric] flag_bits mask_tests m
    using flags_changed [of w i] by simp
qed

theorem tcp_flags_bit_tests_witness:
  "\<exists>src_port dest_port sequence acknowledgment flags payload
      src_port' dest_port' sequence' acknowledgment' flags' payload'.
     tcp_segment [0, 80, 1, 187, 0, 0, 0, 1, 0, 0, 0, 2, 80, 2] =
       Inr (src_port, dest_port, sequence, acknowledgment, flags, payload)
     \<and> tcp_segment [0, 80, 1, 187, 0, 0, 0, 1, 0, 0, 0, 2, 80, 18] =
       Inr (src_port', dest_port', sequence', acknowledgment', flags', payload')
     \<and> flags =
         [(''URG'', 0), (''ACK'', 0), (''PSH'', 0), (''RST'', 0), (''SYN'', 1), (''FIN'', 0)]
     \<and> (\<forall>k. (map_of flags' k \<noteq> map_of flags k) = (k = ''ACK''))"
  using tcp_flags_bit_tests
    [of "[0, 80, 1, 187, 0, 0, 0, 1, 0, 0, 0, 2, 80, 2]"
        "[0, 80, 1, 187, 0, 0, 0, 1, 0, 0, 0, 2, 80, 18]" 20482 4]
  by (simp add: be_uint_def)




text \<open>
  C7. For every 8-byte header, whatever its bytes, \<^verbatim>\<open>udp_segment\<close> returns as payload
  exactly the bytes that follow it. In particular a 46-byte frame with ether_type
  \<open>08 00\<close>, a 20-byte IPv4 header with protocol 17 and 12 residual bytes whose UDP
  declared-length field (offsets 4-5 of the UDP header) is \<open>0x0000\<close> is dissected down to
  a UDP header and the 4-byte payload.
\<close>

theorem udp_payload_ignores_declared_length:
  "(length hdr = 8 \<longrightarrow>
      (\<exists>src_port dest_port sz.
         udp_segment (hdr @ payload) = Inr (src_port, dest_port, sz, payload)))
   \<and> (length raw = 46 \<and> raw ! 12 = 8 \<and> raw ! 13 = 0 \<and> uint (raw ! 14) AND 15 = 5
        \<and> raw ! 23 = 17 \<and> raw ! 38 = 0 \<and> raw ! 39 = 0 \<longrightarrow>
      (\<exists>src_port dest_port sz pl.
         (Udp_segment, drop 34 raw) \<in> set (calls (fst (main_body Little raw)))
         \<and> length (drop 34 raw) = 12
         \<and> last (fst (main_body Little raw)) = Print (UDPSegment src_port dest_port sz pl)
         \<and> pl = drop 42 raw \<and> length pl = 4
         \<and> snd (main_body Little raw) = None))"
proof (intro conjI impI)
  assume h: "length hdr = 8"
  then have "8 \<le> length (hdr @ payload)" by simp
  from udp_segment_ok [OF this] h
  show "\<exists>src_port dest_port sz. udp_segment (hdr @ payload) = Inr (src_port,
      dest_port, sz, payload)"
    by simp
next
  assume h: "length raw = 46 \<and> raw ! 12 = 8 \<and> raw ! 13 = 0 \<and> uint (raw ! 14) AND 15 = 5
        \<and> raw ! 23 = 17 \<and> raw ! 38 = 0 \<and> raw ! 39 = 0"
  then have l: "14 \<le> length raw" by simp
  from ethernet_frame_little [OF l] h obtain dm sm
    where e: "ethernet_frame Little raw = Inr (dm, sm, 8, drop 14 raw)"
    by auto
  have l2: "20 \<le> length (drop 14 raw)" using h by simp
  have i: "ipv4_packet (drop 14 raw) =
             Inr (drop_bit 4 (uint (raw ! 14)), 20, uint (raw ! 22), 17,
                  ipv4 (take 4 (drop 12 (drop 14 raw))), ipv4 (take 4 (drop 16 (drop 14 raw))),
                  drop 34 raw)"
    unfolding ipv4_packet_ok [OF l2] using h by simp
  have l3: "8 \<le> length (drop 34 raw)" using h by simp
  show "\<exists>src_port dest_port sz pl.
         (Udp_segment, drop 34 raw) \<in> set (calls (fst (main_body Little raw)))
         \<and> length (drop 34 raw) = 12
         \<and> last (fst (main_body Little raw)) = Print (UDPSegment src_port dest_port sz pl)
         \<and> pl = drop 42 raw \<and> length pl = 4
         \<and> snd (main_body Little raw) = None"
    unfolding main_body_transport [OF e i] Let_def udp_segment_ok [OF l3]
    using h by simp
qed

theorem udp_payload_ignores_declared_length_witness:
  "(\<exists>src_port dest_port sz.
      udp_segment ([0, 53, 0, 53, 0, 0, 9, 9] @ [1, 2, 3, 4]) =
        Inr (src_port, dest_port, sz, [1, 2, 3, 4]))
   \<and> (\<exists>src_port dest_port sz.
        last (fst (main_body Little
          [1, 2, 3, 4, 5, 6, 10, 11, 12, 13, 14, 255, 8, 0,
           69, 0, 0, 33, 0, 0, 0, 0, 64, 17, 0, 0, 192, 168, 0, 1, 10, 0, 0, 255,
           0, 53, 0, 53, 0, 0, 9, 9, 1, 2, 3, 4])) =
        Print (UDPSegment src_port dest_port sz [1, 2, 3, 4]))
   \<and> snd (main_body Little
        [1, 2, 3, 4, 5, 6, 10, 11, 12, 13, 14, 255, 8, 0,
         69, 0, 0, 33, 0, 0, 0, 0, 64, 17, 0, 0, 192, 168, 0, 1, 10, 0, 0, 255,
         0, 53, 0, 53, 0, 0, 9, 9, 1, 2, 3, 4]) = None"
  using udp_payload_ignores_declared_length
    [of "[0, 53, 0, 53, 0, 0, 9, 9]" "[1, 2, 3, 4]"
        "[1, 2, 3, 4, 5, 6, 10, 11, 12, 13, 14, 255, 8, 0,
         69, 0, 0, 33, 0, 0, 0, 0, 64, 17, 0, 0, 192, 168, 0, 1, 10, 0, 0, 255,
         0, 53, 0, 53, 0, 0, 9, 9, 1, 2, 3, 4]"]
  by simp

text \<open>
  C8. For each decoder, an input one byte shorter than its minimum (Ethernet 14, IPv4 20,
  ICMP 4, TCP 14, UDP 8) raises \<^verbatim>\<open>struct.error\<close> in that decoder, and an input of exactly
  the minimum length succeeds. In the loop body, when a decoder is called on a buffer one
  byte short of its minimum, that call is the last event of the iteration and the
  iteration ends with the \<^verbatim>\<open>struct.error\<close> of that decoder.
\<close>

theorem truncation_boundary:
  "(length d = 13 \<longrightarrow> ethernet_frame bo d = Inl (StructError Ethernet_frame))
   \<and> (length d = 14 \<longrightarrow> (\<exists>r. ethernet_frame bo d = Inr r))
   \<and> (length d = 19 \<longrightarrow> ipv4_packet d = Inl (StructError Ipv4_packet))
   \<and> (length d = 20 \<longrightarrow> (\<exists>r. ipv4_packet d = Inr r))
   \<and> (length d = 3 \<longrightarrow> icmp_packet d = Inl (StructError Icmp_packet))
   \<and> (length d = 4 \<longrightarrow> (\<exists>r. icmp_packet d = Inr r))
   \<and> (length d = 13 \<longrightarrow> tcp_segment d = Inl (StructError Tcp_segment))
   \<and> (length d = 14 \<longrightarrow> (\<exists>r. tcp_segment d = Inr r))
   \<and> (length d = 7 \<longrightarrow> udp_segment d = Inl (StructError Udp_segment))
   \<and> (length d = 8 \<longrightarrow> (\<exists>r. udp_segment d = Inr r))
   \<and> ((f, d) \<in> set (calls (fst (main_body bo raw)))
        \<and> length d + 1 =
            (case f of Ethernet_frame \<Rightarrow> 14 | Ipv4_packet \<Rightarrow> 20 | Icmp_packet \<Rightarrow> 4
                     | Tcp_segment \<Rightarrow> 14 | Udp_segment \<Rightarrow> 8)
        \<longrightarrow> snd (main_body bo raw) = Some (StructError f)
            \<and> last (fst (main_body bo raw)) = Call f d)"
proof -
  have "length d = 13 \<longrightarrow> ethernet_frame bo d = Inl (StructError Ethernet_frame)"
    by (simp add: ethernet_frame_short)
  moreover have "length d = 14 \<longrightarrow> (\<exists>r. ethernet_frame bo d = Inr r)"
    by (simp add: ethernet_frame_ok)
  moreover have "length d = 19 \<longrightarrow> ipv4_packet d = Inl (StructError Ipv4_packet)"
    using ipv4_packet_short [of d] by auto
  moreover have "length d = 20 \<longrightarrow> (\<exists>r. ipv4_packet d = Inr r)"
    by (simp add: ipv4_packet_ok)
  moreover have "length d = 3 \<longrightarrow> icmp_packet d = Inl (StructError Icmp_packet)"
    by (simp add: icmp_packet_short)
  moreover have "length d = 4 \<longrightarrow> (\<exists>r. icmp_packet d = Inr r)"
    by (simp add: icmp_packet_ok)
  moreover have "length d = 13 \<longrightarrow> tcp_segment d = Inl (StructError Tcp_segment)"
    by (simp add: tcp_segment_short)
  moreover have "length d = 14 \<longrightarrow> (\<exists>r. tcp_segment d = Inr r)"
    by (simp add: tcp_segment_ok)
  moreover have "length d = 7 \<longrightarrow> udp_segment d = Inl (StructError Udp_segment)"
    by (simp add: udp_segment_short)
  moreover have "length d = 8 \<longrightarrow> (\<exists>r. udp_segment d = Inr r)"
    by (simp add: udp_segment_ok)
  moreover have "(f, d) \<in> set (calls (fst (main_body bo raw)))
        \<and> length d + 1 =
            (case f of Ethernet_frame \<Rightarrow> 14 | Ipv4_packet \<Rightarrow> 20 | Icmp_packet \<Rightarrow> 4
                     | Tcp_segment \<Rightarrow> 14 | Udp_segment \<Rightarrow> 8)
        \<longrightarrow> snd (main_body bo raw) = Some (StructError f)
            \<and> last (fst (main_body bo raw)) = Call f d"
    using call_too_short_aborts [of f d bo raw] by blast
  ultimately show ?thesis by blast
qed

theorem truncation_boundary_witness:
  "ethernet_frame Little [0, 80, 1, 187, 0, 0, 0, 1, 0, 0, 0, 2, 80] = Inl (StructError Ethernet_frame)
   \<and> tcp_segment [0, 80, 1, 187, 0, 0, 0, 1, 0, 0, 0, 2, 80] = Inl (StructError Tcp_segment)
   \<and> (\<exists>r. ethernet_frame Little [1, 2, 3, 4, 5, 6, 10, 11, 12, 13, 14, 255, 8, 6] = Inr r)
   \<and> (\<exists>r. tcp_segment [1, 2, 3, 4, 5, 6, 10, 11, 12, 13, 14, 255, 8, 6] = Inr r)
   \<and> ipv4_packet [69, 0, 0, 33, 0, 0, 0, 0, 64, 6, 0, 0, 192, 168, 0, 1, 10, 0, 0] =
       Inl (StructError Ipv4_packet)
   \<and> (\<exists>r. ipv4_packet [69, 0, 0, 33, 0, 0, 0, 0, 64, 6, 0, 0, 192, 168, 0, 1, 10, 0, 0, 255] =
            Inr r)
   \<and> icmp_packet [8, 0, 247] = Inl (StructError Icmp_packet)
   \<and> (\<exists>r. icmp_packet [8, 0, 247, 255] = Inr r)
   \<and> udp_segment [0, 53, 0, 53, 0, 12, 9] = Inl (StructError Udp_segment)
   \<and> (\<exists>r. udp_segment [0, 53, 0, 53, 0, 12, 9, 9] = Inr r)
   \<and> snd (main_body Little
        [1, 2, 3, 4, 5, 6, 10, 11, 12, 13, 14, 255, 8, 0,
         69, 0, 0, 33, 0, 0, 0, 0, 64, 6, 0, 0, 192, 168, 0, 1, 10, 0, 0, 255,
         0, 80, 1, 187, 0, 0, 0, 1, 0, 0, 0, 2, 80]) =
       Some (StructError Tcp_segment)
   \<and> last (fst (main_body Little
        [1, 2, 3, 4, 5, 6, 10, 11, 12, 13, 14, 255, 8, 0,
         69, 0, 0, 33, 0, 0, 0, 0, 64, 6, 0, 0, 192, 168, 0, 1, 10, 0, 0, 255,
         0, 80, 1, 187, 0, 0, 0, 1, 0, 0, 0, 2, 80])) =
       Call Tcp_segment [0, 80, 1, 187, 0, 0, 0, 1, 0, 0, 0, 2, 80]"
proof -
  have c: "(Tcp_segment, [0, 80, 1, 187, 0, 0, 0, 1, 0, 0, 0, 2, 80])
           \<in> set (calls (fst (main_body Little
                 [1, 2, 3, 4, 5, 6, 10, 11, 12, 13, 14, 255, 8, 0,
                  69, 0, 0, 33, 0, 0, 0, 0, 64, 6, 0, 0, 192, 168, 0, 1, 10, 0, 0, 255,
                  0, 80, 1, 187, 0, 0, 0, 1, 0, 0, 0, 2, 80])))"
    by code_simp
  show ?thesis
    using c
      truncation_boundary
        [of "[0, 80, 1, 187, 0, 0, 0, 1, 0, 0, 0, 2, 80]" Little Tcp_segment
            "[1, 2, 3, 4, 5, 6, 10, 11, 12, 13, 14, 255, 8, 0,
             69, 0, 0, 33, 0, 0, 0, 0, 64, 6, 0, 0, 192, 168, 0, 1, 10, 0, 0, 255,
             0, 80, 1, 187, 0, 0, 0, 1, 0, 0, 0, 2, 80]"]
      truncation_boundary [of "[1, 2, 3, 4, 5, 6, 10, 11, 12, 13, 14, 255, 8, 6]" Little]
      truncation_boundary [of "[69, 0, 0, 33, 0, 0, 0, 0, 64, 6, 0, 0, 192, 168, 0, 1, 10, 0, 0]"]
      truncation_boundary
        [of "[69, 0, 0, 33, 0, 0, 0, 0, 64, 6, 0, 0, 192, 168, 0, 1, 10, 0, 0, 255]"]
      truncation_boundary [of "[8, 0, 247]"]
      truncation_boundary [of "[8, 0, 247, 255]"]
      truncation_boundary [of "[0, 53, 0, 53, 0, 12, 9]"]
      truncation_boundary [of "[0, 53, 0, 53, 0, 12, 9, 9]"]
    by simp
qed



end
